theory Spec2Isabelle
  imports Main "HOL-Library.Word"
begin

section \<open>The operating-system randomness provider\<close>

text \<open>
  \<^verbatim>\<open>RNGClass.h\<close> talks to the Windows CNG provider through three calls:
  \<^verbatim>\<open>BCryptOpenAlgorithmProvider\<close>, \<^verbatim>\<open>BCryptCloseAlgorithmProvider\<close> and
  \<^verbatim>\<open>BCryptGenRandom\<close>. The provider is not part of the header; it is kept here as an
  explicit piece of state (the handles it has open and the calls it has received) together
  with an environment that fixes what each fill produces.

  A handle is a number handed out by the provider. The argument that reaches
  \<^verbatim>\<open>BCryptCloseAlgorithmProvider\<close> is either the value stored in the member
  \<^verbatim>\<open>algorithm_handle\<close> (line 153) or the address of that member (line 217,
  \<^verbatim>\<open>&this->algorithm_handle\<close>); the address of a class member is never a handle the
  provider has handed out.
\<close>

type_synonym handle = nat

datatype handle_arg = ByValue handle | AddressOfMember

datatype provider_call = OpenCall | CloseCall handle_arg | GenCall handle

record os_provider =
  open_handles :: "handle list"
  next_handle :: handle
  gen_calls :: nat
  calls :: "provider_call list"

text \<open>
  The environment: \<open>fill env n\<close> is what the \<open>n\<close>-th \<^verbatim>\<open>BCryptGenRandom\<close> call writes
  when it is given an open handle (\<open>None\<close>: the provider reports a failure and leaves the
  buffer alone), and \<open>garbage env n\<close> is the indeterminate content of the local variable
  \<^verbatim>\<open>number\<close> (declared without initialiser, line 162) at that call.
\<close>

record 'r environment =
  fill :: "nat \<Rightarrow> 'r option"
  garbage :: "nat \<Rightarrow> 'r"

definition BCryptOpenAlgorithmProvider :: "os_provider \<Rightarrow> handle \<times> os_provider" where
  "BCryptOpenAlgorithmProvider p =
     (next_handle p,
      p\<lparr>open_handles := next_handle p # open_handles p,
        next_handle := Suc (next_handle p),
        calls := calls p @ [OpenCall]\<rparr>)"

definition BCryptCloseAlgorithmProvider :: "handle_arg \<Rightarrow> os_provider \<Rightarrow> os_provider" where
  "BCryptCloseAlgorithmProvider a p =
     (case a of
        ByValue h \<Rightarrow>
          p\<lparr>open_handles := removeAll h (open_handles p), calls := calls p @ [CloseCall a]\<rparr>
      | AddressOfMember \<Rightarrow> p\<lparr>calls := calls p @ [CloseCall a]\<rparr>)"

text \<open>
  \<^verbatim>\<open>BCryptGenRandom(handle, buffer, sizeof(number), NULL)\<close>: returns the status
  (\<open>True\<close> for success), the buffer afterwards and the provider afterwards.
\<close>

definition BCryptGenRandom ::
  "'a word environment \<Rightarrow> handle \<Rightarrow> 'a::len word \<Rightarrow> os_provider \<Rightarrow> bool \<times> 'a word \<times> os_provider" where
  "BCryptGenRandom env h buffer p =
     (let p' = p\<lparr>gen_calls := Suc (gen_calls p), calls := calls p @ [GenCall h]\<rparr>
      in if h \<in> set (open_handles p)
         then (case fill env (gen_calls p) of
                 Some v \<Rightarrow> (True, v, p')
               | None \<Rightarrow> (False, buffer, p'))
         else (False, buffer, p'))"

section \<open>The class \<^verbatim>\<open>RNGClass<T>\<close>\<close>

text \<open>
  The data members of lines 336 to 343. \<^verbatim>\<open>pending_count\<close> is an
  \<^verbatim>\<open>unsigned long long\<close>. The two mutexes carry no data: \<^verbatim>\<open>count_muter\<close> makes
  the increment and the decrement of \<^verbatim>\<open>pending_count\<close> indivisible, and
  \<^verbatim>\<open>destruction_muter\<close> is only ever locked by the destructor.
\<close>

record rng_class =
  initialized :: bool
  algorithm_handle :: handle
  dying :: bool
  pending_count :: "64 word"

record world =
  obj :: rng_class
  os :: os_provider

text \<open>
  The constructor (line 134) leaves \<^verbatim>\<open>algorithm_handle\<close> uninitialised; \<open>h0\<close> is
  whatever the member holds.
\<close>

definition RNGClass :: "handle \<Rightarrow> rng_class" where
  "RNGClass h0 = \<lparr>initialized = False, algorithm_handle = h0, dying = False, pending_count = 0\<rparr>"

datatype failure =
    ShutdownInProgress  \<comment> \<open>\<^verbatim>\<open>std::exception("RNG called after destruction scheduled")\<close>\<close>
  | AssertionFailed     \<comment> \<open>\<^verbatim>\<open>assert\<close> of line 190, 252 or 279 fails: the program aborts\<close>

subsection \<open>Pending-call bookkeeping (lines 298 to 334)\<close>

definition count_up :: "world \<Rightarrow> world" where
  "count_up w = w\<lparr>obj := (obj w)\<lparr>pending_count := pending_count (obj w) + 1\<rparr>\<rparr>"

definition IncrementCount :: "world \<Rightarrow> (failure + unit) \<times> world" where
  "IncrementCount w =
     (if dying (obj w) then (Inl ShutdownInProgress, w) else (Inr (), count_up w))"

definition DecrementCount :: "world \<Rightarrow> world" where
  "DecrementCount w = w\<lparr>obj := (obj w)\<lparr>pending_count := pending_count (obj w) - 1\<rparr>\<rparr>"

subsection \<open>Handle lifecycle (lines 208 to 225)\<close>

definition open_provider :: "world \<Rightarrow> world" where
  "open_provider w =
     (let (h, p) = BCryptOpenAlgorithmProvider (os w)
      in w\<lparr>obj := (obj w)\<lparr>algorithm_handle := h, initialized := True\<rparr>, os := p\<rparr>)"

definition Initialize :: "bool \<Rightarrow> world \<Rightarrow> world" where
  "Initialize reinitialize w =
     (if initialized (obj w) then
        (if reinitialize then
           open_provider
             (w\<lparr>obj := (obj w)\<lparr>initialized := False\<rparr>,
               os := BCryptCloseAlgorithmProvider AddressOfMember (os w)\<rparr>)
         else w)
      else open_provider w)"

subsection \<open>Raw generation (lines 161 to 179 and 236)\<close>

definition lazy_init :: "world \<Rightarrow> world" where
  "lazy_init w = (if \<not> initialized (obj w) then Initialize False w else w)"

definition gen_random :: "'a::len word environment \<Rightarrow> world \<Rightarrow> bool \<times> 'a word \<times> world" where
  "gen_random env w =
     (let (status, number, p) =
            BCryptGenRandom env (algorithm_handle (obj w)) (garbage env (gen_calls (os w))) (os w)
      in (status, number, w\<lparr>os := p\<rparr>))"

definition operator_call :: "'a::len word environment \<Rightarrow> world \<Rightarrow> (failure + 'a word) \<times> world" where
  "operator_call env w =
     (case IncrementCount w of
        (Inl e, w1) \<Rightarrow> (Inl e, w1)
      | (Inr _, w1) \<Rightarrow>
          (let (status, number, w2) = gen_random env (lazy_init w1)
           in (Inr number, DecrementCount w2)))"

definition GetRand :: "'a::len word environment \<Rightarrow> world \<Rightarrow> (failure + 'a word) \<times> world" where
  "GetRand env w = operator_call env w"

subsection \<open>The standard distributions\<close>

text \<open>
  \<^verbatim>\<open>std::uniform_int_distribution<U>(floor, roof)(*this)\<close> and its real counterpart
  belong to the standard library. All the header relies on is that the distribution obtains
  its randomness by calling \<^verbatim>\<open>operator()()\<close> of the generator it is given, any number of
  times. A distribution is therefore a decision function: from the bounds and the raw values
  drawn so far it either delivers its result or asks for one more draw.
\<close>

type_synonym ('r, 'v) distribution = "'v \<Rightarrow> 'v \<Rightarrow> 'r list \<Rightarrow> 'v option"

text \<open>
  The contract of the standard library for bounds \<open>a \<le> b\<close>: a delivered result lies in the
  closed range.
\<close>

definition in_closed_range :: "('r, 'v::ord) distribution \<Rightarrow> bool" where
  "in_closed_range dist \<longleftrightarrow>
     (\<forall>a b raws v. a \<le> b \<longrightarrow> dist a b raws = Some v \<longrightarrow> a \<le> v \<and> v \<le> b)"

text \<open>
  Running a distribution on the generator. The loop ends when the distribution delivers or
  when a draw throws; \<open>None\<close> means that the given number of draws was not enough.
\<close>

fun distribution_call ::
  "nat \<Rightarrow> 'a::len word environment \<Rightarrow> ('a word, 'v) distribution \<Rightarrow> 'v \<Rightarrow> 'v \<Rightarrow>
   'a word list \<Rightarrow> world \<Rightarrow> ((failure + 'v) \<times> world) option" where
  "distribution_call 0 env dist a b raws w =
     (case dist a b raws of
        Some v \<Rightarrow> Some (Inr v, w)
      | None \<Rightarrow> None)"
| "distribution_call (Suc n) env dist a b raws w =
     (case dist a b raws of
        Some v \<Rightarrow> Some (Inr v, w)
      | None \<Rightarrow>
          (case operator_call env w of
             (Inl e, w') \<Rightarrow> Some (Inl e, w')
           | (Inr r, w') \<Rightarrow> distribution_call n env dist a b (raws @ [r]) w'))"

text \<open>The raw values that \<open>k\<close> successive calls of \<^verbatim>\<open>operator()()\<close> return.\<close>

fun draws :: "'a::len word environment \<Rightarrow> world \<Rightarrow> nat \<Rightarrow> 'a word list" where
  "draws env w 0 = []"
| "draws env w (Suc k) =
     (case operator_call env w of
        (Inl e, w') \<Rightarrow> []
      | (Inr r, w') \<Rightarrow> r # draws env w' k)"

subsection \<open>Range-restricted generation (lines 184 to 204, 239, 243 to 266, 270 to 293)\<close>

text \<open>
  \<^verbatim>\<open>operator()(floor, roof)\<close>, \<^verbatim>\<open>CustomRand<cast_type>\<close> and
  \<^verbatim>\<open>FloatingRand<floating_type>\<close> have the same body, statement for statement; they
  differ in the type of the bounds and of the result. The body is given once, for any
  ordered type of values. \<^verbatim>\<open>assert\<close> is taken as compiled in: a failed assertion aborts.
  An exception leaving the distribution leaves the method at once (there is no handler
  around line 197, 259 or 286).
\<close>

definition ranged_generation ::
  "nat \<Rightarrow> 'a::len word environment \<Rightarrow> ('a word, 'v::ord) distribution \<Rightarrow> 'v \<Rightarrow> 'v \<Rightarrow>
   world \<Rightarrow> ((failure + 'v) \<times> world) option" where
  "ranged_generation fuel env dist floor roof w =
     (if \<not> floor < roof then Some (Inl AssertionFailed, w)
      else
        (case IncrementCount w of
           (Inl e, w1) \<Rightarrow> Some (Inl e, w1)
         | (Inr _, w1) \<Rightarrow>
             (case distribution_call fuel env dist floor roof [] w1 of
                None \<Rightarrow> None
              | Some (Inl e, w2) \<Rightarrow> Some (Inl e, w2)
              | Some (Inr number, w2) \<Rightarrow> Some (Inr number, DecrementCount w2))))"

definition operator_call_range ::
  "nat \<Rightarrow> 'a::len word environment \<Rightarrow> ('a word, 'a word) distribution \<Rightarrow> 'a word \<Rightarrow> 'a word \<Rightarrow>
   world \<Rightarrow> ((failure + 'a word) \<times> world) option" where
  "operator_call_range = ranged_generation"

definition GetRand_range ::
  "nat \<Rightarrow> 'a::len word environment \<Rightarrow> ('a word, 'a word) distribution \<Rightarrow> 'a word \<Rightarrow> 'a word \<Rightarrow>
   world \<Rightarrow> ((failure + 'a word) \<times> world) option" where
  "GetRand_range = operator_call_range"




definition CustomRand ::
  "nat \<Rightarrow> 'a::len word environment \<Rightarrow> ('a word, int) distribution \<Rightarrow> int \<Rightarrow> int \<Rightarrow>
   world \<Rightarrow> ((failure + int) \<times> world) option" where
  "CustomRand = ranged_generation"


definition FloatingRand ::
  "nat \<Rightarrow> 'a::len word environment \<Rightarrow> ('a word, 'f::linorder) distribution \<Rightarrow> 'f \<Rightarrow> 'f \<Rightarrow>
   world \<Rightarrow> ((failure + 'f) \<times> world) option" where
  "FloatingRand = ranged_generation"

subsection \<open>The convenience functions (lines 350 to 362)\<close>

text \<open>
  Both functions own a \<^verbatim>\<open>static RNGClass<unsigned int>\<close>; the world passed in holds
  that instance. \<^verbatim>\<open>(int)\<close> reads the 32 bits as a two's complement number and
  \<^verbatim>\<open>std::abs\<close> negates a negative one in 32 bits (the C++ standard leaves the
  negation of \<^verbatim>\<open>INT_MIN\<close> undefined; the machine wraps around).
\<close>

definition std_abs :: "32 word \<Rightarrow> 32 word" where
  "std_abs x = (if sint x < 0 then - x else x)"

definition SimpleRandom :: "32 word environment \<Rightarrow> world \<Rightarrow> (failure + int) \<times> world" where
  "SimpleRandom env w =
     (case operator_call env w of
        (Inl e, w') \<Rightarrow> (Inl e, w')
      | (Inr number, w') \<Rightarrow> (Inr (sint (std_abs number)), w'))"

definition SimpleRandom_range ::
  "nat \<Rightarrow> 32 word environment \<Rightarrow> (32 word, int) distribution \<Rightarrow> int \<Rightarrow> int \<Rightarrow>
   world \<Rightarrow> ((failure + int) \<times> world) option" where
  "SimpleRandom_range fuel env dist floor roof w = distribution_call fuel env dist floor roof [] w"

section \<open>Callers and teardown running concurrently\<close>

text \<open>
  The class is meant to be called from several threads while another thread destroys it.
  Each thread is at a position inside the method it runs; the threads take their steps one
  at a time, in any order, and every step sees what the steps before it have written.
  A step makes at most one access to the shared members. Taking \<^verbatim>\<open>count_muter\<close>,
  changing \<^verbatim>\<open>pending_count\<close> and releasing the mutex is a single step, since the mutex
  lets nothing else touch the counter in between. The test of \<^verbatim>\<open>dying\<close> (line 303)
  comes before the mutex is taken (line 316) and is a step of its own; the destructor reads
  \<^verbatim>\<open>pending_count\<close> without \<^verbatim>\<open>count_muter\<close> (line 147). \<^verbatim>\<open>Initialize\<close> and
  each provider call are taken as one step.
\<close>

subsection \<open>Positions inside \<^verbatim>\<open>operator()()\<close>\<close>

datatype 'r raw_pc =
    Raw_Enter       \<comment> \<open>line 165, at the test of line 303\<close>
  | Raw_Count       \<comment> \<open>lines 316 to 319\<close>
  | Raw_Init        \<comment> \<open>line 169\<close>
  | Raw_Gen         \<comment> \<open>line 172\<close>
  | Raw_Exit 'r     \<comment> \<open>line 175\<close>
  | Raw_Return 'r   \<comment> \<open>line 178\<close>
  | Raw_Throw       \<comment> \<open>line 312, rethrown by line 166\<close>

fun raw_step :: "'a::len word environment \<Rightarrow> 'a word raw_pc \<Rightarrow> world \<Rightarrow> 'a word raw_pc \<times> world" where
  "raw_step env Raw_Enter w = (if dying (obj w) then Raw_Throw else Raw_Count, w)"
| "raw_step env Raw_Count w = (Raw_Init, count_up w)"
| "raw_step env Raw_Init w = (Raw_Gen, lazy_init w)"
| "raw_step env Raw_Gen w = (let (status, number, w') = gen_random env w in (Raw_Exit number, w'))"
| "raw_step env (Raw_Exit number) w = (Raw_Return number, DecrementCount w)"
| "raw_step env (Raw_Return number) w = (Raw_Return number, w)"
| "raw_step env Raw_Throw w = (Raw_Throw, w)"

subsection \<open>Positions inside a distribution that draws from the generator\<close>

datatype ('r, 'v) dist_pc =
    Dist_Ask "'r list"                \<comment> \<open>the distribution decides: result or one more draw\<close>
  | Dist_Draw "'r list" "'r raw_pc"   \<comment> \<open>inside the \<^verbatim>\<open>operator()()\<close> it called\<close>
  | Dist_Result 'v
  | Dist_Throw                        \<comment> \<open>the draw threw; the exception leaves the distribution\<close>

fun dist_step ::
  "'a::len word environment \<Rightarrow> ('a word, 'v) distribution \<Rightarrow> 'v \<Rightarrow> 'v \<Rightarrow>
   ('a word, 'v) dist_pc \<Rightarrow> world \<Rightarrow> ('a word, 'v) dist_pc \<times> world" where
  "dist_step env dist a b (Dist_Ask raws) w =
     (case dist a b raws of Some v \<Rightarrow> Dist_Result v | None \<Rightarrow> Dist_Draw raws Raw_Enter, w)"
| "dist_step env dist a b (Dist_Draw raws (Raw_Return r)) w = (Dist_Ask (raws @ [r]), w)"
| "dist_step env dist a b (Dist_Draw raws Raw_Throw) w = (Dist_Throw, w)"
| "dist_step env dist a b (Dist_Draw raws pc) w =
     (let (pc', w') = raw_step env pc w in (Dist_Draw raws pc', w'))"
| "dist_step env dist a b (Dist_Result v) w = (Dist_Result v, w)"
| "dist_step env dist a b Dist_Throw w = (Dist_Throw, w)"

subsection \<open>Positions inside \<^verbatim>\<open>operator()(floor, roof)\<close> and its two siblings\<close>

datatype ('r, 'v) ranged_pc =
    Rng_Assert                   \<comment> \<open>line 190\<close>
  | Rng_Enter                    \<comment> \<open>line 193, at the test of line 303\<close>
  | Rng_Count                    \<comment> \<open>lines 316 to 319\<close>
  | Rng_Dist "('r, 'v) dist_pc"  \<comment> \<open>line 197\<close>
  | Rng_Exit 'v                  \<comment> \<open>line 200\<close>
  | Rng_Return 'v                \<comment> \<open>line 203\<close>
  | Rng_Throw                    \<comment> \<open>an exception has left the method\<close>
  | Rng_Abort                    \<comment> \<open>the assertion failed\<close>

fun ranged_step ::
  "'a::len word environment \<Rightarrow> ('a word, 'v::ord) distribution \<Rightarrow> 'v \<Rightarrow> 'v \<Rightarrow>
   ('a word, 'v) ranged_pc \<Rightarrow> world \<Rightarrow> ('a word, 'v) ranged_pc \<times> world" where
  "ranged_step env dist floor roof Rng_Assert w = (if floor < roof then Rng_Enter else Rng_Abort, w)"
| "ranged_step env dist floor roof Rng_Enter w = (if dying (obj w) then Rng_Throw else Rng_Count, w)"
| "ranged_step env dist floor roof Rng_Count w = (Rng_Dist (Dist_Ask []), count_up w)"
| "ranged_step env dist floor roof (Rng_Dist (Dist_Result number)) w = (Rng_Exit number, w)"
| "ranged_step env dist floor roof (Rng_Dist Dist_Throw) w = (Rng_Throw, w)"
| "ranged_step env dist floor roof (Rng_Dist d) w =
     (let (d', w') = dist_step env dist floor roof d w in (Rng_Dist d', w'))"
| "ranged_step env dist floor roof (Rng_Exit number) w = (Rng_Return number, DecrementCount w)"
| "ranged_step env dist floor roof (Rng_Return number) w = (Rng_Return number, w)"
| "ranged_step env dist floor roof Rng_Throw w = (Rng_Throw, w)"
| "ranged_step env dist floor roof Rng_Abort w = (Rng_Abort, w)"

subsection \<open>Positions inside the destructor (lines 137 to 154)\<close>

text \<open>
  \<^verbatim>\<open>condition.wait(lock, pred)\<close> is \<^verbatim>\<open>while (!pred()) condition.wait(lock);\<close>.
  The predicate is tested first; when it is false the thread blocks inside
  \<^verbatim>\<open>condition.wait(lock)\<close> and stays there until the condition variable is notified
  or the wait wakes up spuriously, after which the predicate is tested again.
  \<^verbatim>\<open>condition\<close> is a local variable of the destructor (line 140) and no statement of
  the header notifies it.
\<close>

datatype dtor_pc =
    Dtor_SetDying   \<comment> \<open>line 143\<close>
  | Dtor_Wait       \<comment> \<open>lines 146 and 147, at the test of the predicate\<close>
  | Dtor_Blocked    \<comment> \<open>inside \<^verbatim>\<open>condition.wait(lock)\<close>\<close>
  | Dtor_Uninit     \<comment> \<open>line 150\<close>
  | Dtor_Close      \<comment> \<open>line 153\<close>
  | Dtor_Done

definition release_handle :: "world \<Rightarrow> world" where
  "release_handle w =
     w\<lparr>os := BCryptCloseAlgorithmProvider (ByValue (algorithm_handle (obj w))) (os w)\<rparr>"

fun dtor_step :: "dtor_pc \<Rightarrow> world \<Rightarrow> dtor_pc \<times> world" where
  "dtor_step Dtor_SetDying w = (Dtor_Wait, w\<lparr>obj := (obj w)\<lparr>dying := True\<rparr>\<rparr>)"
| "dtor_step Dtor_Wait w = (if pending_count (obj w) = 0 then Dtor_Uninit else Dtor_Blocked, w)"
| "dtor_step Dtor_Blocked w = (Dtor_Blocked, w)"
| "dtor_step Dtor_Uninit w = (Dtor_Close, w\<lparr>obj := (obj w)\<lparr>initialized := False\<rparr>\<rparr>)"
| "dtor_step Dtor_Close w = (Dtor_Done, release_handle w)"
| "dtor_step Dtor_Done w = (Dtor_Done, w)"

subsection \<open>Threads, events and runs\<close>

datatype ('r, 'v) thread =
    Raw "'r raw_pc"
  | Ranged 'v 'v "('r, 'v) ranged_pc"
  | Destructor dtor_pc

fun thread_step ::
  "'a::len word environment \<Rightarrow> ('a word, 'v::ord) distribution \<Rightarrow>
   ('a word, 'v) thread \<Rightarrow> world \<Rightarrow> ('a word, 'v) thread \<times> world" where
  "thread_step env dist (Raw pc) w = (let (pc', w') = raw_step env pc w in (Raw pc', w'))"
| "thread_step env dist (Ranged floor roof pc) w =
     (let (pc', w') = ranged_step env dist floor roof pc w in (Ranged floor roof pc', w'))"
| "thread_step env dist (Destructor pc) w = (let (pc', w') = dtor_step pc w in (Destructor pc', w'))"

text \<open>
  An event is either the next step of one thread or a spurious wake-up of a blocked wait.
\<close>

datatype event = Run nat | Spurious nat

fun fire ::
  "'a::len word environment \<Rightarrow> ('a word, 'v::ord) distribution \<Rightarrow> event \<Rightarrow>
   ('a word, 'v) thread list \<times> world \<Rightarrow> ('a word, 'v) thread list \<times> world" where
  "fire env dist (Run i) (ts, w) =
     (if i < length ts
      then (let (t', w') = thread_step env dist (ts ! i) w in (ts[i := t'], w'))
      else (ts, w))"
| "fire env dist (Spurious i) (ts, w) =
     (if i < length ts \<and> ts ! i = Destructor Dtor_Blocked
      then (ts[i := Destructor Dtor_Wait], w)
      else (ts, w))"

fun run ::
  "'a::len word environment \<Rightarrow> ('a word, 'v::ord) distribution \<Rightarrow> event list \<Rightarrow>
   ('a word, 'v) thread list \<times> world \<Rightarrow> ('a word, 'v) thread list \<times> world" where
  "run env dist [] c = c"
| "run env dist (e # es) c = run env dist es (fire env dist e c)"

text \<open>An exception is on its way out of the call the thread is running.\<close>

fun dist_raised :: "('r, 'v) dist_pc \<Rightarrow> bool" where
  "dist_raised Dist_Throw = True"
| "dist_raised (Dist_Draw raws Raw_Throw) = True"
| "dist_raised d = False"

fun ranged_raised :: "('r, 'v) ranged_pc \<Rightarrow> bool" where
  "ranged_raised Rng_Throw = True"
| "ranged_raised (Rng_Dist d) = dist_raised d"
| "ranged_raised pc = False"

fun raised :: "('r, 'v) thread \<Rightarrow> bool" where
  "raised (Raw Raw_Throw) = True"
| "raised (Ranged floor roof pc) = ranged_raised pc"
| "raised t = False"

text \<open>Where a ranged call stands once it has ended with the given outcome.\<close>

fun ranged_outcome :: "failure + 'v \<Rightarrow> ('r, 'v) ranged_pc" where
  "ranged_outcome (Inr v) = Rng_Return v"
| "ranged_outcome (Inl ShutdownInProgress) = Rng_Throw"
| "ranged_outcome (Inl AssertionFailed) = Rng_Abort"

subsection \<open>Concrete surroundings used in the examples\<close>

definition fresh_provider :: os_provider where
  "fresh_provider = \<lparr>open_handles = [], next_handle = 0, gen_calls = 0, calls = []\<rparr>"

definition fresh_world :: world where
  "fresh_world = \<lparr>obj = RNGClass 0, os = fresh_provider\<rparr>"

definition constant_env :: "'r option \<Rightarrow> 'r \<Rightarrow> 'r environment" where
  "constant_env outcome junk = \<lparr>fill = (\<lambda>n. outcome), garbage = (\<lambda>n. junk)\<rparr>"

text \<open>
  Rejection sampling in its plainest form, for the examples: the latest draw is the result
  when it lies in the range, otherwise another draw is made. The second version reads the
  draw as a signed number, for a signed result type.
\<close>

definition rejection :: "('a::len word, 'a word) distribution" where
  "rejection a b raws =
     (if raws = [] then None
      else if a \<le> last raws \<and> last raws \<le> b then Some (last raws) else None)"

definition rejection_int :: "('a::len word, int) distribution" where
  "rejection_int a b raws =
     (if raws = [] then None
      else if a \<le> sint (last raws) \<and> sint (last raws) \<le> b then Some (sint (last raws)) else None)"

text \<open>A raw call has passed the test of \<^verbatim>\<open>dying\<close> and has not thrown.\<close>

fun past_entry :: "('r, 'v) thread \<Rightarrow> bool" where
  "past_entry (Raw Raw_Enter) = False"
| "past_entry (Raw Raw_Throw) = False"
| "past_entry (Raw pc) = True"
| "past_entry t = False"

text \<open>
  The world after the destructor has executed line 143, and the world after one
  successful raw call on a fresh generator.
\<close>

definition dying_world :: world where
  "dying_world = snd (dtor_step Dtor_SetDying fresh_world)"

definition after_one_call :: world where
  "after_one_call =
     \<lparr>obj = \<lparr>initialized = True, algorithm_handle = 0, dying = False, pending_count = 0\<rparr>,
      os = \<lparr>open_handles = [0], next_handle = 1, gen_calls = 1, calls = [OpenCall, GenCall 0]\<rparr>\<rparr>"

section \<open>Basic facts\<close>

lemmas provider_defs =
  BCryptOpenAlgorithmProvider_def BCryptCloseAlgorithmProvider_def BCryptGenRandom_def

lemmas object_defs =
  count_up_def IncrementCount_def DecrementCount_def open_provider_def
  Initialize_def lazy_init_def gen_random_def release_handle_def

lemmas example_defs = fresh_provider_def fresh_world_def RNGClass_def constant_env_def

lemma operator_call_dying:
  "dying (obj w) \<Longrightarrow> operator_call env w = (Inl ShutdownInProgress, w)"
  by (simp add: operator_call_def IncrementCount_def)

lemma operator_call_alive:
  "\<not> dying (obj w) \<Longrightarrow>
   operator_call env w =
     (Inr (fst (snd (gen_random env (lazy_init (count_up w))))),
      DecrementCount (snd (snd (gen_random env (lazy_init (count_up w))))))"
  by (simp add: operator_call_def IncrementCount_def split: prod.splits)

lemma dying_lazy_init: "dying (obj (lazy_init w)) = dying (obj w)"
  by (simp add: lazy_init_def Initialize_def open_provider_def split: prod.splits)

lemma dying_count_up: "dying (obj (count_up w)) = dying (obj w)"
  by (simp add: count_up_def)

lemma dying_DecrementCount: "dying (obj (DecrementCount w)) = dying (obj w)"
  by (simp add: DecrementCount_def)

lemma dying_gen_random: "dying (obj (snd (snd (gen_random env w)))) = dying (obj w)"
  by (simp add: gen_random_def split: prod.splits)

lemma dying_operator_call: "dying (obj (snd (operator_call env w))) = dying (obj w)"
  by (cases "dying (obj w)")
     (simp_all add: operator_call_dying operator_call_alive dying_DecrementCount
        dying_gen_random dying_lazy_init dying_count_up)

lemma operator_call_example:
  "operator_call (constant_env (Some v) junk) fresh_world = (Inr v, after_one_call)"
  by (simp add: operator_call_def object_defs provider_defs example_defs after_one_call_def)



lemma in_closed_rangeD:
  "in_closed_range dist \<Longrightarrow> a \<le> b \<Longrightarrow> dist a b raws = Some v \<Longrightarrow> a \<le> v \<and> v \<le> b"
  unfolding in_closed_range_def by blast


lemma in_closed_range_rejection_int: "in_closed_range rejection_int"
  by (simp add: in_closed_range_def rejection_int_def)

lemma distribution_call_no_failure:
  "\<not> dying (obj w) \<Longrightarrow> distribution_call fuel env dist a b raws w \<noteq> Some (Inl e, w')"
proof (induction fuel arbitrary: raws w)
  case 0
  then show ?case by (simp split: option.splits)
next
  case (Suc n)
  let ?r = "fst (snd (gen_random env (lazy_init (count_up w))))"
  let ?w = "DecrementCount (snd (snd (gen_random env (lazy_init (count_up w)))))"
  have call: "operator_call env w = (Inr ?r, ?w)"
    using Suc.prems by (rule operator_call_alive)
  have "\<not> dying (obj ?w)"
    using dying_operator_call [of env w] Suc.prems by (simp add: call)
  then have "distribution_call n env dist a b (raws @ [?r]) ?w \<noteq> Some (Inl e, w')"
    by (rule Suc.IH)
  then show ?case by (simp add: call split: option.splits)
qed

section \<open>The counter in calls that run undisturbed\<close>

text \<open>
  With no other thread about, every entry point leaves \<^verbatim>\<open>pending_count\<close> as it
  found it.
\<close>

lemma operator_call_balanced:
  "pending_count (obj (snd (operator_call env w))) = pending_count (obj w)"
  by (cases "dying (obj w)")
     (simp_all add: operator_call_dying operator_call_alive object_defs provider_defs
        case_prod_beta Let_def)

lemma distribution_call_balanced:
  "distribution_call fuel env dist a b raws w = Some (res, w') \<Longrightarrow>
   pending_count (obj w') = pending_count (obj w)"
proof (induction fuel arbitrary: raws w)
  case 0
  then show ?case by (cases "dist a b raws") auto
next
  case (Suc k)
  show ?case
  proof (cases "dist a b raws")
    case (Some v)
    with Suc.prems show ?thesis by auto
  next
    case None
    obtain r w1 where oc: "operator_call env w = (r, w1)" by (cases "operator_call env w")
    have b: "pending_count (obj w1) = pending_count (obj w)"
      using operator_call_balanced [of env w] by (simp add: oc)
    show ?thesis
    proof (cases r)
      case (Inl e)
      with Suc.prems None oc b show ?thesis by auto
    next
      case (Inr v)
      with Suc.prems None oc
      have "distribution_call k env dist a b (raws @ [v]) w1 = Some (res, w')" by simp
      then have "pending_count (obj w') = pending_count (obj w1)" by (rule Suc.IH)
      with b show ?thesis by simp
    qed
  qed
qed

lemma ranged_generation_balanced:
  assumes "ranged_generation fuel env dist floor roof w = Some (res, w')"
  shows "pending_count (obj w') = pending_count (obj w)"
proof (cases "floor < roof \<and> \<not> dying (obj w)")
  case False
  with assms show ?thesis
    by (auto simp: ranged_generation_def IncrementCount_def split: if_splits)
next
  case True
  obtain r where dc: "distribution_call fuel env dist floor roof [] (count_up w) = r" by simp
  from assms True dc obtain res1 w1 where r: "r = Some (res1, w1)"
    by (cases r) (auto simp: ranged_generation_def IncrementCount_def)
  have b: "pending_count (obj w1) = pending_count (obj (count_up w))"
    using dc [unfolded r] by (rule distribution_call_balanced)
  show ?thesis
  proof (cases res1)
    case (Inl e)
    have "distribution_call fuel env dist floor roof [] (count_up w) \<noteq> Some (Inl e, w1)"
      by (rule distribution_call_no_failure) (simp add: True dying_count_up)
    with dc r Inl show ?thesis by simp
  next
    case (Inr v)
    with assms True dc r have "w' = DecrementCount w1"
      by (simp add: ranged_generation_def IncrementCount_def)
    with b show ?thesis by (simp add: DecrementCount_def count_up_def)
  qed
qed

section \<open>Methods as a whole and methods step by step\<close>

text \<open>
  A thread that runs alone goes through a method in steps and ends where the method taken
  as a whole ends: five steps for \<^verbatim>\<open>operator()()\<close>, and some number of steps for a
  ranged call that ends at all.
\<close>

lemma raw_call_steps:
  "run env dist [Run 0, Run 0, Run 0, Run 0, Run 0] ([Raw Raw_Enter], w) =
     ([Raw (case fst (operator_call env w) of Inl e \<Rightarrow> Raw_Throw | Inr v \<Rightarrow> Raw_Return v)],
      snd (operator_call env w))"
  by (cases "dying (obj w)")
     (simp_all add: operator_call_dying operator_call_alive case_prod_beta)

lemma run_append: "run env dist (es @ fs) c = run env dist fs (run env dist es c)"
  by (induction es arbitrary: c) simp_all

lemma draw_steps_alive:
  "\<not> dying (obj w) \<Longrightarrow>
   run env dist [Run 0, Run 0, Run 0, Run 0, Run 0, Run 0]
     ([Ranged a b (Rng_Dist (Dist_Draw raws Raw_Enter))], w) =
     ([Ranged a b (Rng_Dist (Dist_Ask (raws @ [fst (snd (gen_random env (lazy_init (count_up w))))])))],
      DecrementCount (snd (snd (gen_random env (lazy_init (count_up w))))))"
  by (simp add: case_prod_beta)

lemma draw_steps_dying:
  "dying (obj w) \<Longrightarrow>
   run env dist [Run 0, Run 0, Run 0]
     ([Ranged a b (Rng_Dist (Dist_Draw raws Raw_Enter))], w) =
     ([Ranged a b Rng_Throw], w)"
  by (simp add: case_prod_beta)

lemma distribution_call_steps:
  "distribution_call fuel env dist a b raws w = Some (res, w') \<Longrightarrow>
   \<exists>n. run env dist (replicate n (Run 0)) ([Ranged a b (Rng_Dist (Dist_Ask raws))], w) =
     ([Ranged a b (case res of Inl e \<Rightarrow> Rng_Throw | Inr v \<Rightarrow> Rng_Exit v)], w')"
proof (induction fuel arbitrary: raws w)
  case 0
  then obtain v where d: "dist a b raws = Some v" and r: "res = Inr v" and w: "w' = w"
    by (cases "dist a b raws") auto
  have "run env dist (replicate 2 (Run 0)) ([Ranged a b (Rng_Dist (Dist_Ask raws))], w)
      = ([Ranged a b (Rng_Exit v)], w)"
    by (simp add: numeral_2_eq_2 d)
  then show ?case unfolding r w by (intro exI [of _ 2]) (simp only: sum.case)
next
  case (Suc k)
  show ?case
  proof (cases "dist a b raws")
    case (Some v)
    with Suc.prems have r: "res = Inr v" and w: "w' = w" by auto
    have "run env dist (replicate 2 (Run 0)) ([Ranged a b (Rng_Dist (Dist_Ask raws))], w)
        = ([Ranged a b (Rng_Exit v)], w)"
      by (simp add: numeral_2_eq_2 Some)
    then show ?thesis unfolding r w by (intro exI [of _ 2]) (simp only: sum.case)
  next
    case None
    have ask: "run env dist [Run 0] ([Ranged a b (Rng_Dist (Dist_Ask raws))], w)
        = ([Ranged a b (Rng_Dist (Dist_Draw raws Raw_Enter))], w)"
      by (simp add: None)
    show ?thesis
    proof (cases "dying (obj w)")
      case True
      with Suc.prems None have r: "res = Inl ShutdownInProgress" and w: "w' = w"
        by (auto simp: operator_call_dying)
      have l: "replicate 4 (Run 0) = [Run 0] @ [Run 0, Run 0, Run 0]"
        by (simp add: numeral_eq_Suc)
      have "run env dist (replicate 4 (Run 0))
          ([Ranged a b (Rng_Dist (Dist_Ask raws))], w) = ([Ranged a b Rng_Throw], w)"
        unfolding l run_append ask by (rule draw_steps_dying [OF True])
      then show ?thesis unfolding r w by (intro exI [of _ 4]) (simp only: sum.case)
    next
      case False
      let ?r = "fst (snd (gen_random env (lazy_init (count_up w))))"
      let ?w = "DecrementCount (snd (snd (gen_random env (lazy_init (count_up w)))))"
      from Suc.prems None False
      have "distribution_call k env dist a b (raws @ [?r]) ?w = Some (res, w')"
        by (simp add: operator_call_alive)
      from Suc.IH [OF this] obtain n where
        n: "run env dist (replicate n (Run 0)) ([Ranged a b (Rng_Dist (Dist_Ask (raws @ [?r])))], ?w) =
          ([Ranged a b (case res of Inl e \<Rightarrow> Rng_Throw | Inr v \<Rightarrow> Rng_Exit v)], w')" by blast
      have l: "replicate (7 + n) (Run 0)
          = ([Run 0] @ [Run 0, Run 0, Run 0, Run 0, Run 0, Run 0]) @ replicate n (Run 0)"
        by (simp add: numeral_eq_Suc)
      have "run env dist (replicate (7 + n) (Run 0))
          ([Ranged a b (Rng_Dist (Dist_Ask raws))], w) =
          ([Ranged a b (case res of Inl e \<Rightarrow> Rng_Throw | Inr v \<Rightarrow> Rng_Exit v)], w')"
        unfolding l run_append ask draw_steps_alive [OF False] by (rule n)
      then show ?thesis by (rule exI)
    qed
  qed
qed

lemma ranged_generation_steps:
  "ranged_generation fuel env dist floor roof w = Some (res, w') \<Longrightarrow>
   \<exists>n. run env dist (replicate n (Run 0)) ([Ranged floor roof Rng_Assert], w) =
     ([Ranged floor roof (ranged_outcome res)], w')"
proof (cases "floor < roof")
  case False
  assume "ranged_generation fuel env dist floor roof w = Some (res, w')"
  with False have r: "res = Inl AssertionFailed" and w: "w' = w"
    by (simp_all add: ranged_generation_def)
  have "run env dist (replicate 1 (Run 0)) ([Ranged floor roof Rng_Assert], w)
      = ([Ranged floor roof Rng_Abort], w)"
    using False by simp
  then show ?thesis unfolding r w by (intro exI [of _ 1]) (simp only: ranged_outcome.simps)
next
  case True
  assume a: "ranged_generation fuel env dist floor roof w = Some (res, w')"
  show ?thesis
  proof (cases "dying (obj w)")
    case dead: True
    with a True have r: "res = Inl ShutdownInProgress" and w: "w' = w"
      by (simp_all add: ranged_generation_def IncrementCount_def)
    have "run env dist (replicate 2 (Run 0)) ([Ranged floor roof Rng_Assert], w)
        = ([Ranged floor roof Rng_Throw], w)"
      using True dead by (simp add: numeral_2_eq_2)
    then show ?thesis unfolding r w by (intro exI [of _ 2]) (simp only: ranged_outcome.simps)
  next
    case alive: False
    have enter: "run env dist [Run 0, Run 0, Run 0] ([Ranged floor roof Rng_Assert], w)
        = ([Ranged floor roof (Rng_Dist (Dist_Ask []))], count_up w)"
      using True alive by simp
    obtain r where dc: "distribution_call fuel env dist floor roof [] (count_up w) = r" by simp
    from a True alive dc obtain res1 w1 where r: "r = Some (res1, w1)"
      by (cases r) (auto simp: ranged_generation_def IncrementCount_def)
    from distribution_call_steps [OF dc [unfolded r]] obtain n where
      n: "run env dist (replicate n (Run 0)) ([Ranged floor roof (Rng_Dist (Dist_Ask []))], count_up w) =
          ([Ranged floor roof (case res1 of Inl e \<Rightarrow> Rng_Throw | Inr v \<Rightarrow> Rng_Exit v)], w1)"
      by blast
    show ?thesis
    proof (cases res1)
      case (Inl e)
      have "distribution_call fuel env dist floor roof [] (count_up w) \<noteq> Some (Inl e, w1)"
        by (rule distribution_call_no_failure) (simp add: alive dying_count_up)
      with dc r Inl show ?thesis by simp
    next
      case (Inr v)
      with a True alive dc r have res: "res = Inr v" and w': "w' = DecrementCount w1"
        by (simp_all add: ranged_generation_def IncrementCount_def)
      have l: "replicate (4 + n) (Run 0) = ([Run 0, Run 0, Run 0] @ replicate n (Run 0)) @ [Run 0]"
        by (simp add: numeral_eq_Suc replicate_append_same)
      have "run env dist (replicate (4 + n) (Run 0))
          ([Ranged floor roof Rng_Assert], w) = ([Ranged floor roof (Rng_Return v)], DecrementCount w1)"
        unfolding l run_append enter n Inr by simp
      then show ?thesis unfolding res w' by (intro exI [of _ "4 + n"]) (simp only: ranged_outcome.simps)
    qed
  qed
qed

section \<open>Teardown against a call that is entering (C1)\<close>

text \<open>
  C1: the handle is never released while a generation call is in progress; a release
  happens only at a moment when \<^verbatim>\<open>dying\<close> is true and \<^verbatim>\<open>pending_count\<close> is 0.

  The run below shows what the code does when a caller (thread 0, in \<^verbatim>\<open>operator()()\<close>)
  and the destructor (thread 1) meet on a fresh generator:
  \<^item> thread 0 tests \<^verbatim>\<open>dying\<close> at line 303 and reads false;
  \<^item> thread 1 sets \<^verbatim>\<open>dying\<close> (line 143), tests the predicate of line 147, finds
    \<^verbatim>\<open>pending_count == 0\<close> and goes on without waiting;
  \<^item> thread 0 increments \<^verbatim>\<open>pending_count\<close> to 1 (line 319) and opens the handle (line 169);
  \<^item> thread 1 clears \<^verbatim>\<open>initialized\<close> (line 150).

  The first equation is the state in which the destructor executes line 153: the counter is
  1 and thread 0 stands before \<^verbatim>\<open>BCryptGenRandom\<close>. The second is the state after the
  release: the handle is closed while that call is still pending. The third is the end of
  the call: the fill on the closed handle fails and the uninitialised \<^verbatim>\<open>number\<close> (99)
  is returned.
\<close>

theorem release_with_pending_call:
  "run (constant_env (Some (3 :: 32 word)) 99) rejection [Run 0, Run 1, Run 1, Run 0, Run 0, Run 1]
       ([Raw Raw_Enter, Destructor Dtor_SetDying], fresh_world)
   = ([Raw Raw_Gen, Destructor Dtor_Close],
      \<lparr>obj = \<lparr>initialized = False, algorithm_handle = 0, dying = True, pending_count = 1\<rparr>,
       os = \<lparr>open_handles = [0], next_handle = 1, gen_calls = 0, calls = [OpenCall]\<rparr>\<rparr>)
   \<and> run (constant_env (Some (3 :: 32 word)) 99) rejection [Run 0, Run 1, Run 1, Run 0, Run 0, Run 1, Run 1]
       ([Raw Raw_Enter, Destructor Dtor_SetDying], fresh_world)
   = ([Raw Raw_Gen, Destructor Dtor_Done],
      \<lparr>obj = \<lparr>initialized = False, algorithm_handle = 0, dying = True, pending_count = 1\<rparr>,
       os = \<lparr>open_handles = [], next_handle = 1, gen_calls = 0,
              calls = [OpenCall, CloseCall (ByValue 0)]\<rparr>\<rparr>)
   \<and> run (constant_env (Some (3 :: 32 word)) 99) rejection [Run 0, Run 1, Run 1, Run 0, Run 0, Run 1, Run 1, Run 0, Run 0, Run 0]
       ([Raw Raw_Enter, Destructor Dtor_SetDying], fresh_world)
   = ([Raw (Raw_Return 99), Destructor Dtor_Done],
      \<lparr>obj = \<lparr>initialized = False, algorithm_handle = 0, dying = True, pending_count = 0\<rparr>,
       os = \<lparr>open_handles = [], next_handle = 1, gen_calls = 1,
              calls = [OpenCall, CloseCall (ByValue 0), GenCall 0]\<rparr>\<rparr>)"
  by (simp add: object_defs provider_defs example_defs)

section \<open>The bracket around a ranged call (C2)\<close>

text \<open>
  C2: on every exit of every generation entry point, also an exit by a thrown error,
  \<^verbatim>\<open>pending_count\<close> after the call equals \<^verbatim>\<open>pending_count\<close> before the call.

  The run below shows what the code does when the destructor (thread 1) sets \<^verbatim>\<open>dying\<close>
  while a caller (thread 0) is inside \<^verbatim>\<open>operator()(1, 6)\<close>: the caller passes the
  assertion and the test of line 303 and increments the counter to 1; the destructor executes
  line 143; the distribution of line 197 asks for a draw, the \<^verbatim>\<open>operator()()\<close> it
  calls finds \<^verbatim>\<open>dying\<close> set and throws; the exception leaves
  \<^verbatim>\<open>operator()(1, 6)\<close> past line 200. The counter was 0 before the call and is 1 after
  it, and the destructor, whose predicate is now false for good, blocks.
\<close>

theorem throwing_ranged_call_leaks_count:
  "pending_count (obj fresh_world) = 0
   \<and> run (constant_env (Some (3 :: 32 word)) 99) rejection
       [Run 0, Run 0, Run 0, Run 1, Run 0, Run 0, Run 0, Run 0]
       ([Ranged 1 6 Rng_Assert, Destructor Dtor_SetDying], fresh_world)
     = ([Ranged 1 6 Rng_Throw, Destructor Dtor_Wait],
        \<lparr>obj = \<lparr>initialized = False, algorithm_handle = 0, dying = True, pending_count = 1\<rparr>,
         os = fresh_provider\<rparr>)
   \<and> run (constant_env (Some (3 :: 32 word)) 99) rejection
       [Run 0, Run 0, Run 0, Run 1, Run 0, Run 0, Run 0, Run 0, Run 1, Run 0, Run 1]
       ([Ranged 1 6 Rng_Assert, Destructor Dtor_SetDying], fresh_world)
     = ([Ranged 1 6 Rng_Throw, Destructor Dtor_Blocked],
        \<lparr>obj = \<lparr>initialized = False, algorithm_handle = 0, dying = True, pending_count = 1\<rparr>,
         os = fresh_provider\<rparr>)"
  by (simp add: object_defs provider_defs example_defs rejection_def)

section \<open>The shutdown error (C3)\<close>

subsection \<open>\<^verbatim>\<open>dying\<close> is never reset, and nothing throws before it is set\<close>

lemma raw_step_keeps_dying: "dying (obj w) \<Longrightarrow> dying (obj (snd (raw_step env pc w)))"
  by (cases pc)
     (simp_all add: dying_count_up dying_lazy_init dying_DecrementCount dying_gen_random
        case_prod_beta)

lemma raw_step_raises: "fst (raw_step env pc w) = Raw_Throw \<Longrightarrow> pc = Raw_Throw \<or> dying (obj w)"
  by (cases pc) (simp_all add: case_prod_beta split: if_splits)

lemma dist_step_keeps_dying:
  "dying (obj w) \<Longrightarrow> dying (obj (snd (dist_step env dist a b d w)))"
proof (cases d)
  case (Dist_Draw raws pc)
  assume "dying (obj w)"
  then have "dying (obj (snd (raw_step env pc w)))" by (rule raw_step_keeps_dying)
  then show ?thesis using Dist_Draw \<open>dying (obj w)\<close>
    by (cases pc) (simp_all add: case_prod_beta)
qed simp_all

lemma dist_step_raises:
  "dist_raised (fst (dist_step env dist a b d w)) \<Longrightarrow> dist_raised d \<or> dying (obj w)"
proof (cases d)
  case (Dist_Ask raws)
  assume "dist_raised (fst (dist_step env dist a b d w))"
  with Dist_Ask show ?thesis by (simp split: option.splits)
next
  case (Dist_Draw raws pc)
  assume "dist_raised (fst (dist_step env dist a b d w))"
  with Dist_Draw show ?thesis
    by (cases pc) (simp_all add: case_prod_beta split: if_splits)
qed simp_all

lemma ranged_step_keeps_dying:
  "dying (obj w) \<Longrightarrow> dying (obj (snd (ranged_step env dist floor roof pc w)))"
proof (cases pc)
  case (Rng_Dist d)
  assume "dying (obj w)"
  then have "dying (obj (snd (dist_step env dist floor roof d w)))" by (rule dist_step_keeps_dying)
  then show ?thesis using Rng_Dist \<open>dying (obj w)\<close>
    by (cases d) (simp_all add: case_prod_beta)
qed (simp_all add: dying_count_up dying_DecrementCount)

lemma ranged_step_raises:
  "ranged_raised (fst (ranged_step env dist floor roof pc w)) \<Longrightarrow> ranged_raised pc \<or> dying (obj w)"
proof (cases pc)
  case (Rng_Dist d)
  assume a: "ranged_raised (fst (ranged_step env dist floor roof pc w))"
  show ?thesis
  proof (cases "dist_raised d")
    case True
    with Rng_Dist show ?thesis by simp
  next
    case False
    with a Rng_Dist have "dist_raised (fst (dist_step env dist floor roof d w))"
      by (cases d) (simp_all add: case_prod_beta)
    then have "dist_raised d \<or> dying (obj w)" by (rule dist_step_raises)
    with False show ?thesis by simp
  qed
qed (simp_all split: if_splits)

lemma dtor_step_keeps_dying: "dying (obj w) \<Longrightarrow> dying (obj (snd (dtor_step pc w)))"
  by (cases pc) (simp_all add: release_handle_def)

lemma thread_step_keeps_dying:
  "dying (obj w) \<Longrightarrow> dying (obj (snd (thread_step env dist t w)))"
  by (cases t)
     (simp_all add: case_prod_beta raw_step_keeps_dying ranged_step_keeps_dying
        dtor_step_keeps_dying)

lemma thread_step_raises:
  "raised (fst (thread_step env dist t w)) \<Longrightarrow> raised t \<or> dying (obj w)"
proof (cases t)
  case (Raw pc)
  assume "raised (fst (thread_step env dist t w))"
  with Raw have "fst (raw_step env pc w) = Raw_Throw"
    by (cases "fst (raw_step env pc w)") (simp_all add: case_prod_beta)
  then have "pc = Raw_Throw \<or> dying (obj w)" by (rule raw_step_raises)
  with Raw show ?thesis by auto
next
  case (Ranged floor roof pc)
  assume "raised (fst (thread_step env dist t w))"
  with Ranged have "ranged_raised (fst (ranged_step env dist floor roof pc w))"
    by (simp add: case_prod_beta)
  then have "ranged_raised pc \<or> dying (obj w)" by (rule ranged_step_raises)
  with Ranged show ?thesis by auto
next
  case (Destructor pc)
  assume "raised (fst (thread_step env dist t w))"
  with Destructor show ?thesis by (simp add: case_prod_beta)
qed

lemma fire_length: "length (fst (fire env dist e c)) = length (fst c)"
  by (cases c, cases e) (simp_all add: case_prod_beta)

lemma fire_raised:
  assumes "\<forall>t\<in>set (fst c). raised t \<longrightarrow> dying (obj (snd c))"
  shows "\<forall>t\<in>set (fst (fire env dist e c)). raised t \<longrightarrow> dying (obj (snd (fire env dist e c)))"
proof (cases c)
  case (Pair ts w)
  show ?thesis
  proof (cases e)
    case (Run i)
    show ?thesis
    proof (cases "i < length ts")
      case False
      with Pair Run assms show ?thesis by simp
    next
      case True
      let ?t = "fst (thread_step env dist (ts ! i) w)"
      let ?w = "snd (thread_step env dist (ts ! i) w)"
      have f: "fire env dist e c = (ts[i := ?t], ?w)"
        using Pair Run True by (simp add: case_prod_beta)
      have old: "raised (ts ! i) \<longrightarrow> dying (obj w)"
        using assms Pair True by auto
      show ?thesis
      proof (intro ballI impI)
        fix t
        assume mem: "t \<in> set (fst (fire env dist e c))" and r: "raised t"
        from mem f have "t \<in> insert ?t (set ts)"
          using set_update_subset_insert [of ts i ?t] by auto
        then have "dying (obj w)"
        proof
          assume "t = ?t"
          with r have "raised (ts ! i) \<or> dying (obj w)" using thread_step_raises by blast
          with old show ?thesis by blast
        next
          assume "t \<in> set ts"
          with r assms Pair show ?thesis by auto
        qed
        then have "dying (obj ?w)" by (rule thread_step_keeps_dying)
        with f show "dying (obj (snd (fire env dist e c)))" by simp
      qed
    qed
  next
    case (Spurious i)
    show ?thesis
    proof (cases "i < length ts \<and> ts ! i = Destructor Dtor_Blocked")
      case False
      with Pair Spurious assms show ?thesis by auto
    next
      case True
      then have f: "fire env dist e c = (ts[i := Destructor Dtor_Wait], w)"
        using Pair Spurious by simp
      show ?thesis
      proof (intro ballI impI)
        fix t
        assume mem: "t \<in> set (fst (fire env dist e c))" and r: "raised t"
        from mem f have "t \<in> insert (Destructor Dtor_Wait) (set ts)"
          using set_update_subset_insert [of ts i "Destructor Dtor_Wait"] by auto
        with r have "t \<in> set ts" by auto
        with r assms Pair have "dying (obj w)" by auto
        with f show "dying (obj (snd (fire env dist e c)))" by simp
      qed
    qed
  qed
qed

lemma run_raised:
  "\<forall>t\<in>set (fst c). raised t \<longrightarrow> dying (obj (snd c)) \<Longrightarrow>
   \<forall>t\<in>set (fst (run env dist es c)). raised t \<longrightarrow> dying (obj (snd (run env dist es c)))"
proof (induction es arbitrary: c)
  case Nil
  then show ?case by simp
next
  case (Cons e es)
  from Cons.prems have "\<forall>t\<in>set (fst (fire env dist e c)).
      raised t \<longrightarrow> dying (obj (snd (fire env dist e c)))"
    by (rule fire_raised)
  then show ?case unfolding run.simps by (rule Cons.IH)
qed

lemma raw_step_past_entry: "past_entry (Raw pc) \<Longrightarrow> past_entry (Raw (fst (raw_step env pc w)))"
  by (cases pc) (simp_all add: case_prod_beta)

lemma thread_step_past_entry: "past_entry t \<Longrightarrow> past_entry (fst (thread_step env dist t w))"
proof (cases t)
  case (Raw pc)
  assume "past_entry t"
  with Raw have "past_entry (Raw (fst (raw_step env pc w)))" by (simp add: raw_step_past_entry)
  with Raw show ?thesis by (simp add: case_prod_beta)
qed simp_all

lemma fire_past_entry:
  assumes "i < length (fst c)" and "past_entry (fst c ! i)"
  shows "past_entry (fst (fire env dist e c) ! i)"
proof (cases c)
  case (Pair ts w)
  with assms have i: "i < length ts" and p: "past_entry (ts ! i)" by simp_all
  show ?thesis
  proof (cases e)
    case (Run j)
    show ?thesis
    proof (cases "j = i")
      case True
      with Pair Run i p show ?thesis
        by (simp add: case_prod_beta thread_step_past_entry)
    next
      case False
      with Pair Run i p show ?thesis by (simp add: case_prod_beta)
    qed
  next
    case (Spurious j)
    show ?thesis
    proof (cases "j = i")
      case True
      have "ts ! i \<noteq> Destructor Dtor_Blocked" using p by auto
      with Pair Spurious True p show ?thesis by simp
    next
      case False
      with Pair Spurious i p show ?thesis by simp
    qed
  qed
qed

lemma run_past_entry:
  "i < length (fst c) \<Longrightarrow> past_entry (fst c ! i) \<Longrightarrow> past_entry (fst (run env dist es c) ! i)"
proof (induction es arbitrary: c)
  case Nil
  then show ?case by simp
next
  case (Cons e es)
  have "i < length (fst (fire env dist e c))" using Cons.prems(1) by (simp add: fire_length)
  moreover have "past_entry (fst (fire env dist e c) ! i)"
    using Cons.prems by (rule fire_past_entry)
  ultimately show ?case unfolding run.simps by (rule Cons.IH)
qed

lemma ranged_generation_no_shutdown:
  "\<not> dying (obj w) \<Longrightarrow>
   ranged_generation fuel env dist floor roof w \<noteq> Some (Inl ShutdownInProgress, w')"
proof -
  assume alive: "\<not> dying (obj w)"
  then have "\<not> dying (obj (count_up w))" by (simp add: dying_count_up)
  then have "distribution_call fuel env dist floor roof [] (count_up w)
      \<noteq> Some (Inl ShutdownInProgress, w')"
    by (rule distribution_call_no_failure)
  with alive show ?thesis
    by (auto simp: ranged_generation_def IncrementCount_def split: option.splits sum.splits)
qed

lemma ranged_generation_dying:
  "dying (obj w) \<Longrightarrow> floor < roof \<Longrightarrow>
   ranged_generation fuel env dist floor roof w = Some (Inl ShutdownInProgress, w)"
  by (simp add: ranged_generation_def IncrementCount_def)

subsection \<open>The claim\<close>

text \<open>
  C3, as stated: a generation call entered while \<^verbatim>\<open>dying\<close> is false never raises the
  shutdown error, and every call entered after \<^verbatim>\<open>dying\<close> is set raises it. This
  fails for a ranged call. \<^verbatim>\<open>operator()(1, 6)\<close> passes its own test of line 303 while
  \<^verbatim>\<open>dying\<close> is false (second equation: the world is unchanged and the call stands
  before line 319); the destructor then sets \<^verbatim>\<open>dying\<close>, and the raw draw made by the
  distribution tests \<^verbatim>\<open>dying\<close> again and throws, so the ranged call ends with the
  shutdown error. A ranged call with \<open>floor = roof\<close> entered after \<^verbatim>\<open>dying\<close> is set fails
  its assertion, which comes first, and does not raise the shutdown error.
\<close>

theorem ranged_call_raises_after_entry:
  "\<not> dying (obj fresh_world)
   \<and> run (constant_env (Some (3 :: 32 word)) 99) rejection [Run 0, Run 0]
       ([Ranged 1 6 Rng_Assert, Destructor Dtor_SetDying], fresh_world)
     = ([Ranged 1 6 Rng_Count, Destructor Dtor_SetDying], fresh_world)
   \<and> fst (run (constant_env (Some (3 :: 32 word)) 99) rejection
            [Run 0, Run 0, Run 0, Run 1, Run 0, Run 0, Run 0, Run 0]
            ([Ranged 1 6 Rng_Assert, Destructor Dtor_SetDying], fresh_world)) ! 0
     = Ranged 1 6 Rng_Throw
   \<and> dying (obj dying_world)
   \<and> operator_call_range 1 (constant_env (Some (3 :: 32 word)) 99) rejection 5 5 dying_world
     = Some (Inl AssertionFailed, dying_world)"
  by (simp add: object_defs provider_defs example_defs rejection_def dying_world_def
      operator_call_range_def ranged_generation_def)

text \<open>
  C3, amended: a raw call (\<^verbatim>\<open>operator()()\<close>, \<^verbatim>\<open>GetRand()\<close>) that enters while
  \<^verbatim>\<open>dying\<close> is false never raises the shutdown error, whatever other threads do
  afterwards; no call of any kind has raised it as long as \<^verbatim>\<open>dying\<close> is still false,
  so a ranged call raises it only if \<^verbatim>\<open>dying\<close> has been set by the time of one of its
  draws, and none does when the call runs undisturbed; every call entered after
  \<^verbatim>\<open>dying\<close> is set (a ranged one with \<open>floor < roof\<close>) raises the shutdown error and
  leaves the generator and the provider untouched.
\<close>

theorem shutdown_error_discipline:
  fixes floor roof :: "'a::len word" and lo hi :: int and x y :: "'f::linorder"
    and ts :: "('a word, 'v::ord) thread list"
  shows
    "(i < length ts \<and> ts ! i = Raw Raw_Enter \<and> \<not> dying (obj w) \<longrightarrow>
        fst (run env dist (Run i # es) (ts, w)) ! i \<noteq> Raw Raw_Throw)
     \<and> ((\<forall>t\<in>set ts. \<not> raised t) \<and> \<not> dying (obj (snd (run env dist es (ts, w)))) \<longrightarrow>
          (\<forall>t\<in>set (fst (run env dist es (ts, w))). \<not> raised t))
     \<and> (\<not> dying (obj w) \<longrightarrow>
          fst (operator_call env w) \<noteq> Inl ShutdownInProgress
          \<and> fst (GetRand env w) \<noteq> Inl ShutdownInProgress
          \<and> operator_call_range fuel env dist_w floor roof w \<noteq> Some (Inl ShutdownInProgress, w')
          \<and> GetRand_range fuel env dist_w floor roof w \<noteq> Some (Inl ShutdownInProgress, w')
          \<and> CustomRand fuel env dist_int lo hi w \<noteq> Some (Inl ShutdownInProgress, w')
          \<and> FloatingRand fuel env dist_f x y w \<noteq> Some (Inl ShutdownInProgress, w'))
     \<and> (dying (obj w) \<longrightarrow>
          operator_call env w = (Inl ShutdownInProgress, w)
          \<and> GetRand env w = (Inl ShutdownInProgress, w))
     \<and> (dying (obj w) \<and> floor < roof \<longrightarrow>
          operator_call_range fuel env dist_w floor roof w = Some (Inl ShutdownInProgress, w)
          \<and> GetRand_range fuel env dist_w floor roof w = Some (Inl ShutdownInProgress, w))
     \<and> (dying (obj w) \<and> lo < hi \<longrightarrow>
          CustomRand fuel env dist_int lo hi w = Some (Inl ShutdownInProgress, w))
     \<and> (dying (obj w) \<and> x < y \<longrightarrow>
          FloatingRand fuel env dist_f x y w = Some (Inl ShutdownInProgress, w))"
proof -
  have p1: "fst (run env dist (Run i # es) (ts, w)) ! i \<noteq> Raw Raw_Throw"
    if a: "i < length ts \<and> ts ! i = Raw Raw_Enter \<and> \<not> dying (obj w)"
  proof -
    from a have f: "fire env dist (Run i) (ts, w) = (ts[i := Raw Raw_Count], w)" by simp
    have "past_entry (fst (run env dist es (ts[i := Raw Raw_Count], w)) ! i)"
      using a by (intro run_past_entry) simp_all
    then have "fst (run env dist es (ts[i := Raw Raw_Count], w)) ! i \<noteq> Raw Raw_Throw"
      by auto
    then show ?thesis unfolding run.simps f .
  qed
  have p2: "\<forall>t\<in>set (fst (run env dist es (ts, w))). \<not> raised t"
    if a: "(\<forall>t\<in>set ts. \<not> raised t) \<and> \<not> dying (obj (snd (run env dist es (ts, w))))"
  proof -
    from a have "\<forall>t\<in>set (fst (ts, w)). raised t \<longrightarrow> dying (obj (snd (ts, w)))" by simp
    then have "\<forall>t\<in>set (fst (run env dist es (ts, w))).
        raised t \<longrightarrow> dying (obj (snd (run env dist es (ts, w))))"
      by (rule run_raised)
    with a show ?thesis by blast
  qed
  have p3: "fst (operator_call env w) \<noteq> Inl ShutdownInProgress
          \<and> fst (GetRand env w) \<noteq> Inl ShutdownInProgress
          \<and> operator_call_range fuel env dist_w floor roof w \<noteq> Some (Inl ShutdownInProgress, w')
          \<and> GetRand_range fuel env dist_w floor roof w \<noteq> Some (Inl ShutdownInProgress, w')
          \<and> CustomRand fuel env dist_int lo hi w \<noteq> Some (Inl ShutdownInProgress, w')
          \<and> FloatingRand fuel env dist_f x y w \<noteq> Some (Inl ShutdownInProgress, w')"
    if a: "\<not> dying (obj w)"
    using a
    by (simp add: GetRand_def operator_call_alive GetRand_range_def operator_call_range_def
        CustomRand_def FloatingRand_def ranged_generation_no_shutdown)
  have p4: "operator_call env w = (Inl ShutdownInProgress, w)
          \<and> GetRand env w = (Inl ShutdownInProgress, w)" if "dying (obj w)"
    using that by (simp add: GetRand_def operator_call_dying)
  have p5: "operator_call_range fuel env dist_w floor roof w = Some (Inl ShutdownInProgress, w)
          \<and> GetRand_range fuel env dist_w floor roof w = Some (Inl ShutdownInProgress, w)"
    if "dying (obj w) \<and> floor < roof"
    using that by (simp add: GetRand_range_def operator_call_range_def ranged_generation_dying)
  have p6: "CustomRand fuel env dist_int lo hi w = Some (Inl ShutdownInProgress, w)"
    if "dying (obj w) \<and> lo < hi"
    using that by (simp add: CustomRand_def ranged_generation_dying)
  have p7: "FloatingRand fuel env dist_f x y w = Some (Inl ShutdownInProgress, w)"
    if "dying (obj w) \<and> x < y"
    using that by (simp add: FloatingRand_def ranged_generation_dying)
  from p1 p2 p3 p4 p5 p6 p7 show ?thesis by blast
qed

text \<open>
  C3, amended, at concrete inputs: a raw call that enters before the destructor starts, two
  calls that run with no destructor about, and each entry point on a generator whose
  destructor has set \<^verbatim>\<open>dying\<close>.
\<close>

theorem shutdown_error_discipline_witness:
  "(0 :: nat) < length [Raw Raw_Enter :: (32 word, 32 word) thread, Destructor Dtor_SetDying]
   \<and> [Raw Raw_Enter :: (32 word, 32 word) thread, Destructor Dtor_SetDying] ! 0 = Raw Raw_Enter
   \<and> \<not> dying (obj fresh_world)
   \<and> fst (run (constant_env (Some (3 :: 32 word)) 99) rejection [Run 0, Run 1, Run 1, Run 0, Run 0]
            ([Raw Raw_Enter, Destructor Dtor_SetDying], fresh_world)) ! 0 \<noteq> Raw Raw_Throw
   \<and> \<not> raised (Raw Raw_Enter :: (32 word, 32 word) thread)
   \<and> \<not> raised (Ranged 1 6 Rng_Assert :: (32 word, 32 word) thread)
   \<and> \<not> dying (obj (snd (run (constant_env (Some (3 :: 32 word)) 99) rejection [Run 1, Run 0, Run 1]
            ([Raw Raw_Enter, Ranged 1 6 Rng_Assert], fresh_world))))
   \<and> fst (run (constant_env (Some (3 :: 32 word)) 99) rejection [Run 1, Run 0, Run 1]
            ([Raw Raw_Enter, Ranged 1 6 Rng_Assert], fresh_world))
        = [Raw Raw_Count, Ranged 1 6 Rng_Count]
   \<and> \<not> raised (Raw Raw_Count :: (32 word, 32 word) thread)
   \<and> \<not> raised (Ranged 1 6 Rng_Count :: (32 word, 32 word) thread)
   \<and> fst (operator_call (constant_env (Some (3 :: 32 word)) 99) fresh_world) \<noteq> Inl ShutdownInProgress
   \<and> operator_call_range 1 (constant_env (Some (3 :: 32 word)) 99) rejection 1 6 fresh_world
        \<noteq> Some (Inl ShutdownInProgress, fresh_world)
   \<and> dying (obj dying_world) \<and> (1 :: 32 word) < 6 \<and> (- 5 :: int) < 5 \<and> (0 :: int) < 1
   \<and> operator_call (constant_env (Some (3 :: 32 word)) 99) dying_world
        = (Inl ShutdownInProgress, dying_world)
   \<and> GetRand (constant_env (Some (3 :: 32 word)) 99) dying_world
        = (Inl ShutdownInProgress, dying_world)
   \<and> operator_call_range 1 (constant_env (Some (3 :: 32 word)) 99) rejection 1 6 dying_world
        = Some (Inl ShutdownInProgress, dying_world)
   \<and> GetRand_range 1 (constant_env (Some (3 :: 32 word)) 99) rejection 1 6 dying_world
        = Some (Inl ShutdownInProgress, dying_world)
   \<and> CustomRand 1 (constant_env (Some (3 :: 32 word)) 99) rejection_int (- 5) 5 dying_world
        = Some (Inl ShutdownInProgress, dying_world)
   \<and> FloatingRand 1 (constant_env (Some (3 :: 32 word)) 99) rejection_int 0 1 dying_world
        = Some (Inl ShutdownInProgress, dying_world)"
proof -
  let ?env = "constant_env (Some (3 :: 32 word)) 99"
  let ?ts1 = "[Raw Raw_Enter :: (32 word, 32 word) thread, Destructor Dtor_SetDying]"
  let ?ts2 = "[Raw Raw_Enter :: (32 word, 32 word) thread, Ranged 1 6 Rng_Assert]"
  have alive: "\<not> dying (obj fresh_world)" by (simp add: example_defs)
  have dead: "dying (obj dying_world)" by (simp add: dying_world_def)
  have h1: "(0 :: nat) < length ?ts1 \<and> ?ts1 ! 0 = Raw Raw_Enter" by simp
  have h2: "\<forall>t\<in>set ?ts2. \<not> raised t" by simp
  have h3: "\<not> dying (obj (snd (run ?env rejection [Run 1, Run 0, Run 1] (?ts2, fresh_world))))"
    by (simp add: object_defs example_defs)
  have h4: "(1 :: 32 word) < 6 \<and> (- 5 :: int) < 5 \<and> (0 :: int) < 1" by simp
  note a = shutdown_error_discipline [of 0 ?ts1 fresh_world ?env rejection
      "[Run 1, Run 1, Run 0, Run 0]" 1 rejection 1 6 fresh_world rejection_int "- 5" 5
      rejection_int "0 :: int" 1]
  note b = shutdown_error_discipline [of 0 ?ts2 fresh_world ?env rejection
      "[Run 1, Run 0, Run 1]" 1 rejection 1 6 fresh_world rejection_int "- 5" 5
      rejection_int "0 :: int" 1]
  note c = shutdown_error_discipline [of 0 ?ts1 dying_world ?env rejection
      "[]" 1 rejection 1 6 dying_world rejection_int "- 5" 5
      rejection_int "0 :: int" 1]
  from a h1 alive
  have c1: "fst (run ?env rejection [Run 0, Run 1, Run 1, Run 0, Run 0] (?ts1, fresh_world)) ! 0
      \<noteq> Raw Raw_Throw" by blast
  from b h2 h3
  have c2: "\<forall>t\<in>set (fst (run ?env rejection [Run 1, Run 0, Run 1] (?ts2, fresh_world))). \<not> raised t"
    by blast
  from a alive
  have c3: "fst (operator_call ?env fresh_world) \<noteq> Inl ShutdownInProgress
      \<and> operator_call_range 1 ?env rejection 1 6 fresh_world \<noteq> Some (Inl ShutdownInProgress, fresh_world)"
    by blast
  from c dead h4
  have c4: "operator_call ?env dying_world = (Inl ShutdownInProgress, dying_world)
      \<and> GetRand ?env dying_world = (Inl ShutdownInProgress, dying_world)
      \<and> operator_call_range 1 ?env rejection 1 6 dying_world = Some (Inl ShutdownInProgress, dying_world)
      \<and> GetRand_range 1 ?env rejection 1 6 dying_world = Some (Inl ShutdownInProgress, dying_world)
      \<and> CustomRand 1 ?env rejection_int (- 5) 5 dying_world = Some (Inl ShutdownInProgress, dying_world)
      \<and> FloatingRand 1 ?env rejection_int 0 1 dying_world = Some (Inl ShutdownInProgress, dying_world)"
    by blast
  have e2: "fst (run ?env rejection [Run 1, Run 0, Run 1] (?ts2, fresh_world))
      = [Raw Raw_Count, Ranged 1 6 Rng_Count]"
    by (simp add: object_defs example_defs)
  from c2 have c2': "\<not> raised (Raw Raw_Count :: (32 word, 32 word) thread)
      \<and> \<not> raised (Ranged 1 6 Rng_Count :: (32 word, 32 word) thread)"
    unfolding e2 by simp
  from h2 have h2': "\<not> raised (Raw Raw_Enter :: (32 word, 32 word) thread)
      \<and> \<not> raised (Ranged 1 6 Rng_Assert :: (32 word, 32 word) thread)" by simp
  from h1 alive c1 h2' h3 e2 c2' c3 dead h4 c4 show ?thesis by blast
qed

section \<open>Waking the destructor (C4)\<close>

text \<open>
  A blocked wait is left only by a spurious wake-up: no step of any thread notifies the
  condition variable.
\<close>

lemma fire_blocked:
  assumes "e \<noteq> Spurious i" and "i < length (fst c)" and "fst c ! i = Destructor Dtor_Blocked"
  shows "fst (fire env dist e c) ! i = Destructor Dtor_Blocked"
proof (cases c)
  case (Pair ts w)
  with assms have i: "i < length ts" and p: "ts ! i = Destructor Dtor_Blocked" by simp_all
  show ?thesis
  proof (cases e)
    case (Run j)
    with Pair i p show ?thesis by (cases "j = i") (simp_all add: case_prod_beta)
  next
    case (Spurious j)
    with assms(1) have "j \<noteq> i" by simp
    with Pair Spurious i p show ?thesis by simp
  qed
qed

lemma run_blocked:
  "Spurious i \<notin> set es \<Longrightarrow> i < length (fst c) \<Longrightarrow> fst c ! i = Destructor Dtor_Blocked \<Longrightarrow>
   fst (run env dist es c) ! i = Destructor Dtor_Blocked"
proof (induction es arbitrary: c)
  case Nil
  then show ?case by simp
next
  case (Cons e es)
  from Cons.prems(1) have ne: "e \<noteq> Spurious i" and rest: "Spurious i \<notin> set es" by auto
  have "i < length (fst (fire env dist e c))" using Cons.prems(2) by (simp add: fire_length)
  moreover have "fst (fire env dist e c) ! i = Destructor Dtor_Blocked"
    using ne Cons.prems(2,3) by (rule fire_blocked)
  ultimately show ?case unfolding run.simps by (rule Cons.IH [OF rest])
qed

text \<open>
  C4: \<^verbatim>\<open>DecrementCount\<close> decrements \<^verbatim>\<open>pending_count\<close> under the count lock and,
  when the count reaches zero while \<^verbatim>\<open>dying\<close> is true, signals the waiting destructor
  (by a notification, or because the wait polls the count), so that the wait ends once the
  last pending call exits.

  The run below shows what the code does when the destructor (thread 1) starts while a call
  of \<^verbatim>\<open>operator()()\<close> (thread 0) is pending: the caller enters and increments the
  counter; the destructor sets \<^verbatim>\<open>dying\<close>, finds the predicate false and blocks in
  \<^verbatim>\<open>condition.wait\<close>; the caller generates (first equation: it stands before line 175
  with the counter at 1) and executes \<^verbatim>\<open>DecrementCount\<close> (second equation: the counter
  is 0, \<^verbatim>\<open>dying\<close> is true, and the destructor is still blocked, since line 332 only
  decrements). Further steps of either thread change nothing (third equation).
\<close>

theorem last_exit_leaves_destructor_blocked:
  "run (constant_env (Some (3 :: 32 word)) 99) rejection
       [Run 0, Run 0, Run 1, Run 1, Run 0, Run 0]
       ([Raw Raw_Enter, Destructor Dtor_SetDying], fresh_world)
   = ([Raw (Raw_Exit 3), Destructor Dtor_Blocked],
      \<lparr>obj = \<lparr>initialized = True, algorithm_handle = 0, dying = True, pending_count = 1\<rparr>,
       os = \<lparr>open_handles = [0], next_handle = 1, gen_calls = 1, calls = [OpenCall, GenCall 0]\<rparr>\<rparr>)
  \<and> run (constant_env (Some (3 :: 32 word)) 99) rejection
       [Run 0, Run 0, Run 1, Run 1, Run 0, Run 0, Run 0]
       ([Raw Raw_Enter, Destructor Dtor_SetDying], fresh_world)
   = ([Raw (Raw_Return 3), Destructor Dtor_Blocked],
      \<lparr>obj = \<lparr>initialized = True, algorithm_handle = 0, dying = True, pending_count = 0\<rparr>,
       os = \<lparr>open_handles = [0], next_handle = 1, gen_calls = 1, calls = [OpenCall, GenCall 0]\<rparr>\<rparr>)
  \<and> run (constant_env (Some (3 :: 32 word)) 99) rejection
       [Run 0, Run 0, Run 1, Run 1, Run 0, Run 0, Run 0, Run 1, Run 0, Run 1, Run 1]
       ([Raw Raw_Enter, Destructor Dtor_SetDying], fresh_world)
   = ([Raw (Raw_Return 3), Destructor Dtor_Blocked],
      \<lparr>obj = \<lparr>initialized = True, algorithm_handle = 0, dying = True, pending_count = 0\<rparr>,
       os = \<lparr>open_handles = [0], next_handle = 1, gen_calls = 1, calls = [OpenCall, GenCall 0]\<rparr>\<rparr>)"
  by (simp add: object_defs provider_defs example_defs)

section \<open>Provider failures (C5)\<close>

text \<open>
  C5, as stated: every call of \<^verbatim>\<open>operator()()\<close> either returns a value the provider
  has filled in completely, or surfaces the provider's failure as an error. This fails:
  with a provider whose fill fails, \<^verbatim>\<open>BCryptGenRandom\<close> reports the failure
  (status \<open>False\<close>), line 172 discards the status, and the call returns what the
  uninitialised local \<^verbatim>\<open>number\<close> held (here 99) as if it were a random value.
\<close>

theorem failed_fill_returns_garbage:
  "fst (gen_random (constant_env None (99 :: 32 word)) (lazy_init (count_up fresh_world))) = False
   \<and> fst (operator_call (constant_env None (99 :: 32 word)) fresh_world) = Inr 99"
  by (simp add: operator_call_def object_defs provider_defs example_defs)

text \<open>
  C5, amended: when the provider's fill succeeds, \<^verbatim>\<open>operator()()\<close> returns exactly the
  full-width value the provider wrote (the \<open>n\<close>-th fill for the \<open>n\<close>-th call), never a
  partial or stale one; a provider failure is not surfaced, since the only error the call
  ever raises is the shutdown error, and only when \<^verbatim>\<open>dying\<close> is set.
\<close>

theorem operator_call_provider_outcome:
  "(\<not> dying (obj w) \<longrightarrow> gen_random env (lazy_init (count_up w)) = (True, v, w2) \<longrightarrow>
      operator_call env w = (Inr v, DecrementCount w2) \<and> fill env (gen_calls (os w)) = Some v)
   \<and> (fst (operator_call env w) = Inl e \<longrightarrow> e = ShutdownInProgress \<and> dying (obj w))"
  apply (cases "dying (obj w)")
   apply (simp add: operator_call_dying)
  apply (simp add: operator_call_alive)
  apply (auto simp: object_defs provider_defs Let_def split: if_splits option.splits prod.splits)
  done

text \<open>
  C5, amended, at concrete inputs: a fresh generator whose provider fills in 3, and a
  generator whose destructor has set \<^verbatim>\<open>dying\<close>.
\<close>

theorem operator_call_provider_outcome_witness:
  "\<not> dying (obj fresh_world)
   \<and> fst (gen_random (constant_env (Some (3 :: 32 word)) 99) (lazy_init (count_up fresh_world)))
   \<and> fst (operator_call (constant_env (Some (3 :: 32 word)) 99) fresh_world) = Inr 3
   \<and> fill (constant_env (Some (3 :: 32 word)) 99) (gen_calls (os fresh_world)) = Some 3
   \<and> fst (operator_call (constant_env (Some (3 :: 32 word)) 99) dying_world) = Inl ShutdownInProgress
   \<and> dying (obj dying_world)"
proof -
  let ?env = "constant_env (Some (3 :: 32 word)) 99"
  let ?g = "gen_random ?env (lazy_init (count_up fresh_world))"
  have alive: "\<not> dying (obj fresh_world)" by (simp add: example_defs)
  have g: "?g = (True, 3, snd (snd ?g))"
    by (simp add: object_defs provider_defs example_defs)
  have gs: "fst ?g"
    by (simp add: object_defs provider_defs example_defs)
  have d: "fst (operator_call ?env dying_world) = Inl ShutdownInProgress"
    by (simp add: dying_world_def operator_call_def IncrementCount_def)
  from operator_call_provider_outcome [of fresh_world ?env 3 "snd (snd ?g)"] alive g
  have "operator_call ?env fresh_world = (Inr 3, DecrementCount (snd (snd ?g)))
        \<and> fill ?env (gen_calls (os fresh_world)) = Some 3" by blast
  moreover from operator_call_provider_outcome [of dying_world ?env _ _ ShutdownInProgress] d
  have "dying (obj dying_world)" by blast
  ultimately show ?thesis using alive gs d by simp
qed

section \<open>Results of ranged generation (C6)\<close>

lemma distribution_call_range:
  "in_closed_range dist \<Longrightarrow> a \<le> b \<Longrightarrow>
   distribution_call fuel env dist a b raws w = Some (Inr v, w') \<Longrightarrow> a \<le> v \<and> v \<le> b"
proof (induction fuel arbitrary: raws w)
  case 0
  from "0.prems"(3) have "dist a b raws = Some v"
    by (cases "dist a b raws") simp_all
  with "0.prems"(1,2) show ?case by (rule in_closed_rangeD)
next
  case (Suc n)
  show ?case
  proof (cases "dist a b raws")
    case (Some u)
    with Suc.prems(3) have "dist a b raws = Some v" by simp
    with Suc.prems(1,2) show ?thesis by (rule in_closed_rangeD)
  next
    case None
    obtain res w1 where oc: "operator_call env w = (res, w1)" by (cases "operator_call env w")
    show ?thesis
    proof (cases res)
      case (Inl e)
      with Suc.prems(3) None oc show ?thesis by simp
    next
      case (Inr r)
      with Suc.prems(3) None oc
      have "distribution_call n env dist a b (raws @ [r]) w1 = Some (Inr v, w')" by simp
      with Suc.prems(1,2) show ?thesis by (rule Suc.IH)
    qed
  qed
qed

lemma distribution_call_never_aborts:
  "distribution_call fuel env dist a b raws w \<noteq> Some (Inl AssertionFailed, w')"
proof (induction fuel arbitrary: raws w)
  case 0
  then show ?case by (simp split: option.splits)
next
  case (Suc n)
  show ?case
  proof (cases "dying (obj w)")
    case True
    then show ?thesis by (simp add: operator_call_dying split: option.splits)
  next
    case False
    with Suc show ?thesis by (simp add: operator_call_alive split: option.splits)
  qed
qed

lemma distribution_call_returns:
  "\<not> dying (obj w) \<Longrightarrow> k \<le> fuel \<Longrightarrow> dist a b (raws @ draws env w k) = Some u \<Longrightarrow>
   \<exists>v w'. distribution_call fuel env dist a b raws w = Some (Inr v, w')"
proof (induction k arbitrary: fuel raws w)
  case 0
  then show ?case by (cases fuel) simp_all
next
  case (Suc k)
  then obtain n where fuel: "fuel = Suc n" and kn: "k \<le> n" by (cases fuel) auto
  show ?case
  proof (cases "dist a b raws")
    case (Some u')
    then show ?thesis by (simp add: fuel)
  next
    case None
    let ?r = "fst (snd (gen_random env (lazy_init (count_up w))))"
    let ?w = "DecrementCount (snd (snd (gen_random env (lazy_init (count_up w)))))"
    have call: "operator_call env w = (Inr ?r, ?w)"
      using Suc.prems(1) by (rule operator_call_alive)
    have alive: "\<not> dying (obj ?w)"
      using dying_operator_call [of env w] Suc.prems(1) by (simp add: call)
    have "dist a b ((raws @ [?r]) @ draws env ?w k) = Some u"
      using Suc.prems(3) by (simp add: call)
    from Suc.IH [OF alive kn this] show ?thesis
      by (simp add: fuel None call)
  qed
qed








section \<open>The range precondition (C7)\<close>

lemma ranged_generation_rejects:
  fixes floor roof :: "'v::preorder"
  shows "roof \<le> floor \<Longrightarrow>
    ranged_generation fuel env dist floor roof w = Some (Inl AssertionFailed, w)"
  by (simp add: ranged_generation_def less_le_not_le)

text \<open>
  C7: a violation of \<open>lo < hi\<close> is an assertion failure: for every pair with \<open>lo \<ge> hi\<close>,
  in particular for (5, 5), the ranged operations fail the assertion and return no value.
  The assertion is the first statement of each of them, so nothing else has happened when
  the program aborts: the generator and the provider are as they were.
\<close>

theorem invalid_range_rejected:
  fixes floor roof :: "'a::len word" and lo hi :: int and x y :: "'f::linorder"
  assumes "roof \<le> floor" and "hi \<le> lo" and "y \<le> x"
  shows "operator_call_range fuel env dist floor roof w = Some (Inl AssertionFailed, w)
     \<and> GetRand_range fuel env dist floor roof w = Some (Inl AssertionFailed, w)
     \<and> CustomRand fuel env dist_int lo hi w = Some (Inl AssertionFailed, w)
     \<and> FloatingRand fuel env dist_f x y w = Some (Inl AssertionFailed, w)"
  using assms
  by (simp add: operator_call_range_def GetRand_range_def CustomRand_def FloatingRand_def
      ranged_generation_rejects)

text \<open>C7 at concrete inputs: the pair (5, 5), and a pair with the bounds swapped.\<close>

theorem invalid_range_rejected_witness:
  "(5 :: 32 word) \<le> 5 \<and> (5 :: int) \<le> 5 \<and> (2 :: int) \<le> 3
   \<and> operator_call_range 7 (constant_env (Some 3) 99) rejection (5 :: 32 word) 5 fresh_world
       = Some (Inl AssertionFailed, fresh_world)
   \<and> GetRand_range 7 (constant_env (Some 3) 99) rejection (5 :: 32 word) 5 fresh_world
       = Some (Inl AssertionFailed, fresh_world)
   \<and> CustomRand 7 (constant_env (Some (3 :: 32 word)) 99) rejection_int 5 5 fresh_world
       = Some (Inl AssertionFailed, fresh_world)
   \<and> FloatingRand 7 (constant_env (Some (3 :: 32 word)) 99) rejection_int 3 2 fresh_world
       = Some (Inl AssertionFailed, fresh_world)"
  using invalid_range_rejected [of "5 :: 32 word" 5 "5 :: int" 5 "2 :: int" 3 7
      "constant_env (Some 3) 99" rejection fresh_world rejection_int rejection_int]
  by simp

section \<open>Reinitialisation (C8)\<close>

text \<open>
  C8: \<^verbatim>\<open>Initialize(true)\<close> on an initialised generator performs exactly one close of the
  existing handle, marks the generator uninitialised, performs exactly one open of a fresh
  handle and marks it initialised again; with \<^verbatim>\<open>reinitialize == false\<close> a second call
  does nothing, so two calls in a row acquire one handle.

  What the code does, on a fresh generator: the first \<^verbatim>\<open>Initialize()\<close> opens handle 0 and
  a second one changes nothing (one \<^verbatim>\<open>OpenCall\<close> in all). \<^verbatim>\<open>Initialize(true)\<close> then
  makes one close call and one open call, but the close call is handed the address of the
  member (line 217) and not the handle, as line 153 of the destructor does: handle 0 is
  still open afterwards, next to the new handle 1.
\<close>

theorem reinitialize_leaves_old_handle_open:
  "Initialize False (Initialize False fresh_world) = Initialize False fresh_world
   \<and> calls (os (Initialize False (Initialize False fresh_world))) = [OpenCall]
   \<and> algorithm_handle (obj (Initialize False fresh_world)) = 0
   \<and> open_handles (os (Initialize False fresh_world)) = [0]
   \<and> calls (os (Initialize True (Initialize False fresh_world)))
        = [OpenCall, CloseCall AddressOfMember, OpenCall]
   \<and> open_handles (os (Initialize True (Initialize False fresh_world))) = [1, 0]
   \<and> algorithm_handle (obj (Initialize True (Initialize False fresh_world))) = 1
   \<and> initialized (obj (Initialize True (Initialize False fresh_world)))
   \<and> calls (os (release_handle (Initialize False fresh_world)))
        = [OpenCall, CloseCall (ByValue 0)]
   \<and> open_handles (os (release_handle (Initialize False fresh_world))) = []"
  by (simp add: object_defs provider_defs example_defs)

section \<open>The sign of \<^verbatim>\<open>SimpleRandom()\<close> (C9)\<close>

lemma sint_min_32: "sint (x :: 32 word) = - 2147483648 \<Longrightarrow> x = 0x80000000"
proof -
  assume a: "sint x = - 2147483648"
  have "sint (0x80000000 :: 32 word) = - 2147483648" by simp
  with a have "sint x = sint (0x80000000 :: 32 word)" by simp
  then show ?thesis by (rule signed_word_eqI)
qed

lemma std_abs_nonneg:
  assumes "number \<noteq> 0x80000000"
  shows "0 \<le> sint (std_abs number) \<and> sint (std_abs number) \<le> 2147483647"
proof (cases "sint number < 0")
  case False
  moreover have "sint number < 2 ^ (LENGTH(32) - 1)" by (rule sint_lt)
  ultimately show ?thesis by (simp add: std_abs_def)
next
  case True
  have lo: "- (2 ^ (LENGTH(32) - 1)) \<le> sint number" by (rule sint_ge)
  have ne: "sint number \<noteq> - 2147483648" using assms sint_min_32 by blast
  have "sint (- number) = signed_take_bit (LENGTH(32) - 1) (- sint number)"
    by (simp add: sint_word_ariths)
  also have "\<dots> = - sint number"
    using lo ne True by (intro signed_take_bit_int_eq_self) simp_all
  finally show ?thesis using True lo ne by (simp add: std_abs_def)
qed

text \<open>
  C9: for every raw value, \<^verbatim>\<open>SimpleRandom()\<close> returns a value \<open>v\<close> with
  \<open>0 \<le> v \<le> INT_MAX\<close>, also for the raw value that reads as the most negative
  \<^verbatim>\<open>int\<close>.

  What the code does when the provider fills in \<^verbatim>\<open>0x80000000\<close>: the cast reads it as
  \<open>-2147483648\<close>, whose negation does not fit 32 bits, and the function returns
  \<open>-2147483648\<close>. For every other raw value the result is within the range
  (\<open>std_abs_nonneg\<close>).
\<close>

theorem SimpleRandom_most_negative:
  "SimpleRandom (constant_env (Some 0x80000000) 0) fresh_world = (Inr (- 2147483648), after_one_call)"
  by (simp add: SimpleRandom_def std_abs_def operator_call_example)

section \<open>\<^verbatim>\<open>SimpleRandom(floor, roof)\<close> (C10)\<close>

text \<open>
  C10: \<^verbatim>\<open>SimpleRandom(floor, roof)\<close> checks no \<open>floor < roof\<close> of its own, unlike the
  member operations: for \<open>floor \<le> roof\<close> it returns a value between the two, and for
  \<open>floor = roof\<close> it accepts the call and returns \<open>floor\<close>.

  As for C6 the distribution is assumed to keep its contract. Every value returned lies
  within the bounds (and is \<open>floor\<close> when the bounds are equal), the function never fails an
  assertion, where \<^verbatim>\<open>CustomRand<int>\<close> with equal bounds does, and it returns a value
  whenever \<^verbatim>\<open>dying\<close> is not set and the distribution delivers after some number \<open>k\<close>
  of draws.
\<close>

theorem SimpleRandom_range_inclusive:
  assumes "in_closed_range dist" and "floor \<le> roof"
  shows
    "(SimpleRandom_range fuel env dist floor roof w = Some (Inr v, w') \<longrightarrow>
        floor \<le> v \<and> v \<le> roof \<and> (floor = roof \<longrightarrow> v = floor))
     \<and> SimpleRandom_range fuel env dist floor roof w \<noteq> Some (Inl AssertionFailed, w'')
     \<and> CustomRand fuel env dist floor floor w = Some (Inl AssertionFailed, w)
     \<and> (\<not> dying (obj w) \<and> k \<le> fuel \<and> dist floor roof (draws env w k) = Some x \<longrightarrow>
          (\<exists>v w'. SimpleRandom_range fuel env dist floor roof w = Some (Inr v, w')
             \<and> floor \<le> v \<and> v \<le> roof \<and> (floor = roof \<longrightarrow> v = floor)))"
proof -
  have p1: "floor \<le> v \<and> v \<le> roof \<and> (floor = roof \<longrightarrow> v = floor)"
    if "SimpleRandom_range fuel env dist floor roof w = Some (Inr v, w')" for v w'
  proof -
    from that have "floor \<le> v \<and> v \<le> roof"
      unfolding SimpleRandom_range_def by (rule distribution_call_range [OF assms])
    then show ?thesis by auto
  qed
  have p2: "SimpleRandom_range fuel env dist floor roof w \<noteq> Some (Inl AssertionFailed, w'')"
    unfolding SimpleRandom_range_def by (rule distribution_call_never_aborts)
  have p3: "CustomRand fuel env dist floor floor w = Some (Inl AssertionFailed, w)"
    by (simp add: CustomRand_def ranged_generation_def)
  have p4: "\<exists>v w'. SimpleRandom_range fuel env dist floor roof w = Some (Inr v, w')
             \<and> floor \<le> v \<and> v \<le> roof \<and> (floor = roof \<longrightarrow> v = floor)"
    if a: "\<not> dying (obj w) \<and> k \<le> fuel \<and> dist floor roof (draws env w k) = Some x"
  proof -
    from a distribution_call_returns [of w k fuel dist floor roof "[]" env x]
    obtain v w2 where "SimpleRandom_range fuel env dist floor roof w = Some (Inr v, w2)"
      unfolding SimpleRandom_range_def by auto
    with p1 show ?thesis by blast
  qed
  from p1 p2 p3 p4 show ?thesis by blast
qed

text \<open>C10 at concrete inputs: both bounds are 5 and the provider fills in 5.\<close>

theorem SimpleRandom_range_inclusive_witness:
  "in_closed_range (rejection_int :: (32 word, int) distribution) \<and> (5 :: int) \<le> 5
   \<and> \<not> dying (obj fresh_world) \<and> (1 :: nat) \<le> 1
   \<and> rejection_int 5 5 (draws (constant_env (Some (5 :: 32 word)) 99) fresh_world 1) = Some 5
   \<and> SimpleRandom_range 1 (constant_env (Some (5 :: 32 word)) 99) rejection_int 5 5 fresh_world
        = Some (Inr 5, after_one_call)
   \<and> CustomRand 1 (constant_env (Some (5 :: 32 word)) 99) rejection_int 5 5 fresh_world
        = Some (Inl AssertionFailed, fresh_world)
   \<and> (\<exists>v w'. SimpleRandom_range 1 (constant_env (Some (5 :: 32 word)) 99) rejection_int 5 5 fresh_world
          = Some (Inr v, w') \<and> 5 \<le> v \<and> v \<le> 5 \<and> v = 5)"
proof -
  let ?env = "constant_env (Some (5 :: 32 word)) 99"
  have h1: "in_closed_range (rejection_int :: (32 word, int) distribution)"
    by (rule in_closed_range_rejection_int)
  have h2: "(5 :: int) \<le> 5" by simp
  have alive: "\<not> dying (obj fresh_world)" by (simp add: example_defs)
  have d: "draws ?env fresh_world 1 = [5]"
    by (simp add: operator_call_example)
  have r: "rejection_int 5 5 (draws ?env fresh_world 1) = Some 5"
    by (simp only: d) (simp add: rejection_int_def)
  have c: "SimpleRandom_range 1 ?env rejection_int 5 5 fresh_world = Some (Inr 5, after_one_call)"
    by (simp add: SimpleRandom_range_def operator_call_example rejection_int_def)
  note main = SimpleRandom_range_inclusive [OF h1 h2, of 1 ?env fresh_world 5 after_one_call _ 1 5]
  from main have m: "CustomRand 1 ?env rejection_int 5 5 fresh_world = Some (Inl AssertionFailed, fresh_world)"
    by blast
  from main alive r
  have e: "\<exists>v w'. SimpleRandom_range 1 ?env rejection_int 5 5 fresh_world = Some (Inr v, w')
          \<and> 5 \<le> v \<and> v \<le> 5 \<and> v = 5" by auto
  from h1 h2 alive r c m e show ?thesis by simp
qed

end
